theory Spec2Isabelle
  imports Complex_Main "HOL-Library.Word" "HOL-Library.Sublist"
begin

unbundle bit_operations_syntax

section \<open>Data model\<close>

subsection \<open>JavaScript strings and numbers\<close>

text \<open>
  A JavaScript string is a sequence of 16-bit code units. \<open>utf16\<close> writes an ASCII
  literal as such a sequence. JavaScript numbers are modelled as exact reals (rounding
  to double or single precision, NaN and the infinities are not modelled); the values
  of \<open>Date.now()\<close> are integers.
\<close>

type_synonym jsstring = "16 word list"

definition utf16 :: "string \<Rightarrow> jsstring" where
  "utf16 s = map (\<lambda>c. of_char c) s"

text \<open>
  \<open>String.prototype.trim\<close> removes WhiteSpace and LineTerminator code units from both
  ends (ECMAScript: TAB, VT, FF, SP, NBSP, ZWNBSP, the Unicode space separators, and
  LF, CR, LS, PS).
\<close>

definition isWhiteSpace :: "16 word \<Rightarrow> bool" where
  "isWhiteSpace c \<longleftrightarrow>
     c \<in> set [0x09, 0x0A, 0x0B, 0x0C, 0x0D, 0x20, 0xA0, 0x1680, 0x2028, 0x2029,
                0x202F, 0x205F, 0x3000, 0xFEFF]
     \<or> (0x2000 \<le> c \<and> c \<le> 0x200A)"

definition trim :: "jsstring \<Rightarrow> jsstring" where
  "trim s = rev (dropWhile isWhiteSpace (rev (dropWhile isWhiteSpace s)))"

text \<open>\<open>s.startsWith(t)\<close>: the first \<open>length t\<close> code units of \<open>s\<close> are \<open>t\<close>.\<close>

definition startsWith :: "jsstring \<Rightarrow> jsstring \<Rightarrow> bool" where
  "startsWith s searchString \<longleftrightarrow> take (length searchString) s = searchString"

text \<open>
  \<open>Number.prototype.toString\<close> on an integer below \<open>10^21\<close> in magnitude (every value of
  \<open>Date.now()\<close> is): the decimal digits, most significant first, after a minus sign
  for a negative number.
\<close>

definition digitChar :: "nat \<Rightarrow> 16 word" where
  "digitChar d = of_nat (48 + d)"

fun decimalDigits :: "nat \<Rightarrow> jsstring" where
  "decimalDigits n =
     (if n < 10 then [digitChar n]
      else decimalDigits (n div 10) @ [digitChar (n mod 10)])"

declare decimalDigits.simps [simp del]

definition numberToString :: "int \<Rightarrow> jsstring" where
  "numberToString n = (if n < 0 then 45 # decimalDigits (nat (- n)) else decimalDigits (nat n))"

subsection \<open>Transcript items (types.ts)\<close>

datatype speaker = User | Model

record TranscriptItem =
  id_item :: jsstring
  source :: speaker
  text_item :: jsstring
  timestamp :: int
  isComplete :: bool

section \<open>The transcript reconciler (App.tsx, handleTranscriptUpdate)\<close>

text \<open>
  The state updater passed to \<open>setTranscripts\<close>. \<open>now1\<close> and \<open>now2\<close> are the values of
  the first and the second call of \<open>Date.now()\<close> made by one update: an in-place update
  reads the clock once (the timestamp), an append twice (the id, then the timestamp).
  \<open>prev[prev.length - 1]\<close> is \<open>undefined\<close> on the empty array.
\<close>

definition handleTranscriptUpdate ::
  "int \<Rightarrow> int \<Rightarrow> jsstring \<Rightarrow> bool \<Rightarrow> bool \<Rightarrow> TranscriptItem list \<Rightarrow> TranscriptItem list" where
  "handleTranscriptUpdate now1 now2 txt isUser isComplete' prev =
     (let lastItem = (if prev = [] then None else Some (prev ! (length prev - 1)));
          currentSource = (if isUser then User else Model);
          appended = prev @ [\<lparr>id_item = numberToString now1, source = currentSource,
                               text_item = txt, timestamp = now2, isComplete = isComplete'\<rparr>]
      in if trim txt = [] then prev
         else case lastItem of
           None \<Rightarrow> appended
         | Some l \<Rightarrow>
             if source l = currentSource \<and> \<not> isComplete l
             then prev[length prev - 1 :=
                         l\<lparr>text_item := txt, isComplete := isComplete', timestamp := now1\<rparr>]
             else if source l = currentSource \<and> isComplete l
             then (if text_item l = txt then prev
                   else if startsWith (text_item l) txt then prev
                   else if startsWith txt (text_item l)
                   then prev[length prev - 1 :=
                               l\<lparr>text_item := txt, isComplete := isComplete', timestamp := now1\<rparr>]
                   else appended)
             else appended)"

text \<open>
  The upsert rule in the words of the specification (section 4.4), for new text \<open>T\<close>,
  the speaker, the completeness flag and the current sequence; \<open>L\<close> is its last item.
  An item that is replaced in place also has its last-update timestamp refreshed.
\<close>

definition upsert_rule ::
  "int \<Rightarrow> int \<Rightarrow> jsstring \<Rightarrow> speaker \<Rightarrow> bool \<Rightarrow> TranscriptItem list \<Rightarrow> TranscriptItem list" where
  "upsert_rule now1 now2 T spk flag items =
     (let new = \<lparr>id_item = numberToString now1, source = spk, text_item = T,
                  timestamp = now2, isComplete = flag\<rparr>
      in if T = [] \<or> list_all isWhiteSpace T then items
         else case rev items of
           [] \<Rightarrow> items @ [new]
         | L # before \<Rightarrow>
             let replaced = rev before @ [L\<lparr>text_item := T, isComplete := flag, timestamp := now1\<rparr>]
             in if source L = spk \<and> \<not> isComplete L then replaced
                else if source L = spk \<and> isComplete L
                then (if T = text_item L \<or> prefix T (text_item L) then items
                      else if strict_prefix (text_item L) T then replaced
                      else items @ [new])
                else items @ [new])"

subsection \<open>Series of transcript updates\<close>

text \<open>
  One transcript update: the two clock readings, then the arguments of the callback
  \<open>onTranscriptUpdate(text, isUser, isComplete)\<close>. React applies the queued state
  updaters in order, starting from the initial state \<open>[]\<close>.
\<close>

type_synonym transcriptUpdate = "int \<times> int \<times> jsstring \<times> bool \<times> bool"

definition applyUpdate :: "transcriptUpdate \<Rightarrow> TranscriptItem list \<Rightarrow> TranscriptItem list" where
  "applyUpdate u prev = (case u of (now1, now2, txt, isUser, isComplete') \<Rightarrow>
     handleTranscriptUpdate now1 now2 txt isUser isComplete' prev)"

fun applyUpdates :: "TranscriptItem list \<Rightarrow> transcriptUpdate list \<Rightarrow> TranscriptItem list" where
  "applyUpdates prev [] = prev"
| "applyUpdates prev (u # us) = applyUpdates (applyUpdate u prev) us"

fun clockRead1 :: "transcriptUpdate \<Rightarrow> int" where
  "clockRead1 (now1, rest) = now1"

text \<open>
  The invariant in the words of the specification: an incomplete item is the final item
  of its speaker (no later item has the same speaker).
\<close>

fun only_final_incomplete :: "TranscriptItem list \<Rightarrow> bool" where
  "only_final_incomplete [] = True"
| "only_final_incomplete (x # xs) =
     ((isComplete x \<or> list_all (\<lambda>y. source y \<noteq> source x) xs) \<and> only_final_incomplete xs)"

text \<open>
  The invariant the reconciler keeps: an incomplete item is the last item or is
  directly followed by an item of the other speaker.
\<close>

fun incomplete_before_other_speaker :: "TranscriptItem list \<Rightarrow> bool" where
  "incomplete_before_other_speaker (x # y # rest) =
     ((isComplete x \<or> source y \<noteq> source x) \<and> incomplete_before_other_speaker (y # rest))"
| "incomplete_before_other_speaker _ = True"

section \<open>Audio utilities (utils.ts)\<close>

type_synonym u8 = "8 word"

type_synonym int16 = "16 word"

text \<open>The exceptions the code can meet: a DOMException of \<open>atob\<close>/\<open>btoa\<close>, a RangeError
  of a typed-array constructor or of \<open>start\<close>, a NotSupportedError of \<open>createBuffer\<close>.\<close>

datatype error = InvalidCharacterError | RangeError | NotSupportedError

subsection \<open>The platform's \<open>btoa\<close> and \<open>atob\<close>\<close>

text \<open>
  The two built-ins, after RFC 4648 and the forgiving-base64 decoding of the WHATWG
  Infra standard. \<open>btoa\<close> throws on a code unit above 255, encodes three octets as four
  characters of the alphabet and pads with \<open>=\<close>. \<open>atob\<close> removes ASCII whitespace,
  removes one or two trailing \<open>=\<close> when the length is a multiple of four, fails on a
  length of 1 modulo 4 or on a character outside the alphabet, and discards the
  surplus bits of the last group.
\<close>

definition b64char :: "nat \<Rightarrow> 16 word" where
  "b64char n =
     (if n < 26 then of_nat (65 + n)
      else if n < 52 then of_nat (71 + n)
      else if n < 62 then of_nat (n - 4)
      else if n = 62 then 43 else 47)"

definition b64index :: "16 word \<Rightarrow> nat option" where
  "b64index c =
     (let k = unat c
      in if 65 \<le> k \<and> k \<le> 90 then Some (k - 65)
         else if 97 \<le> k \<and> k \<le> 122 then Some (k - 71)
         else if 48 \<le> k \<and> k \<le> 57 then Some (k + 4)
         else if k = 43 then Some 62
         else if k = 47 then Some 63
         else None)"

fun sextets :: "nat list \<Rightarrow> nat list" where
  "sextets (a # b # c # rest) =
     [a div 4, (a mod 4) * 16 + b div 16, (b mod 16) * 4 + c div 64, c mod 64] @ sextets rest"
| "sextets [a, b] = [a div 4, (a mod 4) * 16 + b div 16, (b mod 16) * 4]"
| "sextets [a] = [a div 4, (a mod 4) * 16]"
| "sextets [] = []"

fun octets :: "nat list \<Rightarrow> nat list" where
  "octets (p # q # r # s # rest) =
     [p * 4 + q div 16, (q mod 16) * 16 + r div 4, (r mod 4) * 64 + s] @ octets rest"
| "octets [p, q, r] = [p * 4 + q div 16, (q mod 16) * 16 + r div 4]"
| "octets [p, q] = [p * 4 + q div 16]"
| "octets _ = []"

definition btoa :: "jsstring \<Rightarrow> error + jsstring" where
  "btoa s =
     (if list_ex (\<lambda>c. 255 < c) s then Inl InvalidCharacterError
      else Inr (map b64char (sextets (map unat s))
                @ replicate ((3 - length s mod 3) mod 3) 61))"

definition isAsciiWhitespace :: "16 word \<Rightarrow> bool" where
  "isAsciiWhitespace c \<longleftrightarrow> c \<in> set [0x09, 0x0A, 0x0C, 0x0D, 0x20]"

definition stripPadding :: "jsstring \<Rightarrow> jsstring" where
  "stripPadding d =
     (if length d mod 4 = 0
      then (case rev d of
              a # b # r \<Rightarrow> if a = 61 \<and> b = 61 then rev r
                           else if a = 61 then rev (b # r) else d
            | _ \<Rightarrow> d)
      else d)"

definition atob :: "jsstring \<Rightarrow> error + jsstring" where
  "atob s =
     (let d = stripPadding (filter (\<lambda>c. \<not> isAsciiWhitespace c) s)
      in if length d mod 4 = 1 then Inl InvalidCharacterError
         else if list_ex (\<lambda>c. b64index c = None) d then Inl InvalidCharacterError
         else Inr (map of_nat (octets (map (\<lambda>c. the (b64index c)) d))))"

subsection \<open>decodeBase64 and encodeBase64\<close>

text \<open>\<open>bytes[i] = binaryString.charCodeAt(i)\<close>: a Uint8Array keeps the low eight bits.\<close>

fun charCodes :: "jsstring \<Rightarrow> u8 list" where
  "charCodes [] = []"
| "charCodes (c # cs) = ucast c # charCodes cs"

definition decodeBase64 :: "jsstring \<Rightarrow> error + u8 list" where
  "decodeBase64 base64 =
     (case atob base64 of
        Inl e \<Rightarrow> Inl e
      | Inr binaryString \<Rightarrow> Inr (charCodes binaryString))"

text \<open>\<open>binary += String.fromCharCode(bytes[i])\<close>, then \<open>btoa(binary)\<close>.\<close>

fun fromCharCodes :: "u8 list \<Rightarrow> jsstring \<Rightarrow> jsstring" where
  "fromCharCodes [] binary = binary"
| "fromCharCodes (b # bs) binary = fromCharCodes bs (binary @ [ucast b])"

definition encodeBase64 :: "u8 list \<Rightarrow> error + jsstring" where
  "encodeBase64 bytes = btoa (fromCharCodes bytes [])"

subsection \<open>createPcmBlob\<close>

text \<open>
  Storing a number into an Int16Array applies ToInt16: the fraction is dropped (rounding
  towards zero) and the integer is reduced modulo \<open>2^16\<close>.
\<close>

definition toInt16 :: "real \<Rightarrow> int16" where
  "toInt16 x = word_of_int (if x < 0 then \<lceil>x\<rceil> else \<lfloor>x\<rfloor>)"

definition pcmSample :: "real \<Rightarrow> int16" where
  "pcmSample x =
     (let s = max (- 1) (min 1 x)
      in toInt16 (if s < 0 then s * 32768 else s * 32767))"

fun pcmLoop :: "real list \<Rightarrow> int16 list" where
  "pcmLoop [] = []"
| "pcmLoop (x # xs) = pcmSample x # pcmLoop xs"

text \<open>
  \<open>new Uint8Array(int16.buffer)\<close> views the same memory as bytes: on the little-endian
  hosts the code runs on, the low byte of each element comes first.
\<close>

fun bufferOfInt16 :: "int16 list \<Rightarrow> u8 list" where
  "bufferOfInt16 [] = []"
| "bufferOfInt16 (w # ws) = ucast w # ucast (drop_bit 8 w) # bufferOfInt16 ws"

record Blob =
  data :: jsstring
  mimeType :: jsstring

definition createPcmBlob :: "real list \<Rightarrow> error + Blob" where
  "createPcmBlob samples =
     (case encodeBase64 (bufferOfInt16 (pcmLoop samples)) of
        Inl e \<Rightarrow> Inl e
      | Inr s \<Rightarrow> Inr \<lparr>data = s, mimeType = utf16 ''audio/pcm;rate=16000''\<rparr>)"

text \<open>
  The conversion in the words of the specification: the clamped sample times 32768
  (negative) or 32767, rounded to the nearest integer (\<open>Math.round\<close>).
\<close>

definition pcm16_spec :: "real \<Rightarrow> int" where
  "pcm16_spec x =
     (let s = max (- 1) (min 1 x)
      in if s < 0 then round (s * 32768) else round (s * 32767))"

definition truncate_toward_zero :: "real \<Rightarrow> int" where
  "truncate_toward_zero x = (if x < 0 then \<lceil>x\<rceil> else \<lfloor>x\<rfloor>)"

subsection \<open>decodeAudioData\<close>

text \<open>
  \<open>new Int16Array(data.buffer)\<close> throws a RangeError on an odd number of bytes.
  \<open>createBuffer\<close> throws a NotSupportedError outside the nominal ranges; the ranges here
  are those every implementation supports (1 to 32 channels, a length of at least one
  frame, 8000 to 96000 Hz). \<open>frameCount\<close> is converted to an unsigned integer by
  \<open>createBuffer\<close>, and an element written beyond the buffer is dropped, so the frames
  filled are those below the integer quotient.
\<close>

fun int16OfBuffer :: "u8 list \<Rightarrow> int16 list" where
  "int16OfBuffer (lo # hi # rest) = (ucast lo OR push_bit 8 (ucast hi)) # int16OfBuffer rest"
| "int16OfBuffer _ = []"

definition newInt16Array :: "u8 list \<Rightarrow> error + int16 list" where
  "newInt16Array buffer =
     (if length buffer mod 2 \<noteq> 0 then Inl RangeError else Inr (int16OfBuffer buffer))"

record AudioBuffer =
  sampleRate :: real
  frameLength :: nat
  channels :: "real list list"

text \<open>\<open>AudioBuffer.duration\<close>: the length in frames over the sample rate.\<close>

definition duration :: "AudioBuffer \<Rightarrow> real" where
  "duration b = real (frameLength b) / sampleRate b"

definition createBuffer :: "nat \<Rightarrow> nat \<Rightarrow> real \<Rightarrow> error + AudioBuffer" where
  "createBuffer numberOfChannels len rate =
     (if numberOfChannels < 1 \<or> 32 < numberOfChannels \<or> len < 1 \<or> rate < 8000 \<or> 96000 < rate
      then Inl NotSupportedError
      else Inr \<lparr>sampleRate = rate, frameLength = len,
                 channels = replicate numberOfChannels (replicate len 0)\<rparr>)"

definition fillChannel :: "int16 list \<Rightarrow> nat \<Rightarrow> nat \<Rightarrow> nat \<Rightarrow> real list" where
  "fillChannel dataInt16 numChannels frameCount channel =
     map (\<lambda>i. real_of_int (sint (dataInt16 ! (i * numChannels + channel))) / 32768) [0..<frameCount]"

definition decodeAudioData :: "u8 list \<Rightarrow> real \<Rightarrow> nat \<Rightarrow> error + AudioBuffer" where
  "decodeAudioData bytes rate numChannels =
     (case newInt16Array bytes of
        Inl e \<Rightarrow> Inl e
      | Inr dataInt16 \<Rightarrow>
          let frameCount = length dataInt16 div numChannels
          in case createBuffer numChannels frameCount rate of
               Inl e \<Rightarrow> Inl e
             | Inr buffer \<Rightarrow>
                 Inr (buffer\<lparr>channels :=
                        map (fillChannel dataInt16 numChannels frameCount) [0..<numChannels]\<rparr>))"

text \<open>Encoding samples with \<open>createPcmBlob\<close>, then decoding the chunk's bytes with
  \<open>decodeAudioData\<close> (one channel) and reading that channel.\<close>

definition encodeThenDecode :: "real list \<Rightarrow> real \<Rightarrow> error + real list" where
  "encodeThenDecode samples rate =
     (case createPcmBlob samples of
        Inl e \<Rightarrow> Inl e
      | Inr blob \<Rightarrow>
          (case decodeBase64 (data blob) of
             Inl e \<Rightarrow> Inl e
           | Inr bytes \<Rightarrow>
               (case decodeAudioData bytes rate 1 of
                  Inl e \<Rightarrow> Inl e
                | Inr buffer \<Rightarrow> Inr (channels buffer ! 0))))"

subsection \<open>downsampleTo16k\<close>

text \<open>
  \<open>input[i]\<close> is \<open>undefined\<close> outside the array; \<open>v || d\<close> is \<open>d\<close> when \<open>v\<close> is
  \<open>undefined\<close> or zero. \<open>new Float32Array(n)\<close> is zero-filled, has length 0 for NaN
  (\<open>0/0\<close>) and throws a RangeError for a negative or infinite \<open>n\<close>.
\<close>

definition element :: "real list \<Rightarrow> int \<Rightarrow> real option" where
  "element a i = (if 0 \<le> i \<and> i < int (length a) then Some (a ! nat i) else None)"

definition orElse :: "real option \<Rightarrow> real \<Rightarrow> real" where
  "orElse v d = (case v of None \<Rightarrow> d | Some x \<Rightarrow> if x = 0 then d else x)"

function downsampleLoop :: "real list \<Rightarrow> real \<Rightarrow> nat \<Rightarrow> nat \<Rightarrow> real list \<Rightarrow> real list" where
  "downsampleLoop input ratio newLength i result =
     (if i < newLength
      then let idx = real i * ratio;
               intIdx = \<lfloor>idx\<rfloor>;
               frac = idx - real_of_int intIdx;
               val1 = orElse (element input intIdx) 0;
               val2 = orElse (element input (intIdx + 1)) val1
           in downsampleLoop input ratio newLength (i + 1)
                (result[i := val1 * (1 - frac) + val2 * frac])
      else result)"
  by pat_completeness auto
termination
  by (relation "measure (\<lambda>(input, ratio, newLength, i, result). newLength - i)") auto

declare downsampleLoop.simps [simp del]

definition downsampleTo16k :: "real list \<Rightarrow> real \<Rightarrow> error + real list" where
  "downsampleTo16k input inputRate =
     (if inputRate = 16000 then Inr input
      else let ratio = inputRate / 16000
           in if ratio = 0 then (if input = [] then Inr [] else Inl RangeError)
              else let newLength = \<lceil>real (length input) / ratio\<rceil>
                   in if newLength < 0 then Inl RangeError
                      else Inr (downsampleLoop input ratio (nat newLength) 0
                                  (replicate (nat newLength) 0)))"

text \<open>
  The interpolation in the words of the specification: position \<open>p = i * ratio\<close>, floor
  index \<open>k\<close>, fraction \<open>f\<close>; an index out of range is read as the last valid sample,
  and \<open>input[k+1]\<close> out of range as the same sample.
\<close>

definition interpolate_spec :: "real list \<Rightarrow> real \<Rightarrow> nat \<Rightarrow> real" where
  "interpolate_spec input ratio i =
     (let p = real i * ratio;
          k = nat \<lfloor>p\<rfloor>;
          f = p - real_of_int \<lfloor>p\<rfloor>;
          a = input ! min k (length input - 1);
          b = (if k + 1 < length input then input ! (k + 1) else a)
      in a * (1 - f) + b * f)"

section \<open>The live client (services/liveClient.ts)\<close>

subsection \<open>State, messages and effects\<close>

text \<open>
  A scheduled source node with the buffer it plays and the time passed to \<open>start\<close>.
  The effects of handling a message are recorded in the order they happen: the
  callbacks of the configuration, \<open>start\<close> and \<open>stop\<close> on source nodes, and
  \<open>console.error\<close> in the \<open>catch\<close> block.
\<close>

record AudioBufferSourceNode =
  buffer :: AudioBuffer
  startTime :: real

datatype effect =
    TranscriptUpdate jsstring bool bool
  | AudioVisualizer real
  | SourceStart AudioBufferSourceNode
  | SourceStop AudioBufferSourceNode
  | ConsoleError error

text \<open>
  \<open>message.serverContent\<close> may be absent. A transcription object may lack its \<open>text\<close>.
  \<open>audioData\<close> is \<open>content?.modelTurn?.parts?.[0]?.inlineData?.data\<close>.
\<close>

record ServerContent =
  interrupted :: bool
  inputTranscription :: "jsstring option option"
  outputTranscription :: "jsstring option option"
  turnComplete :: bool
  audioData :: "jsstring option"

type_synonym LiveServerMessage = "ServerContent option"

text \<open>
  The fields of the client that \<open>handleOnMessage\<close> reads or writes. The set of
  scheduled sources is kept in insertion order, the order in which \<open>forEach\<close> visits it.
\<close>

record GeminiLiveClient =
  hasAudioContext :: bool
  currentInputTranscription :: jsstring
  currentOutputTranscription :: jsstring
  nextStartTime :: real
  scheduledSources :: "AudioBufferSourceNode list"


subsection \<open>handleOnMessage\<close>

text \<open>\<open>s += t\<close> appends the text \<open>undefined\<close> when \<open>t\<close> is undefined.\<close>

definition appendText :: "jsstring \<Rightarrow> jsstring option \<Rightarrow> jsstring" where
  "appendText s t = s @ (case t of None \<Rightarrow> utf16 ''undefined'' | Some x \<Rightarrow> x)"

text \<open>1. Handle Interruption: checked first, and the handler returns at once.\<close>

definition handleInterruption :: "GeminiLiveClient \<Rightarrow> GeminiLiveClient \<times> effect list" where
  "handleInterruption c =
     (c\<lparr>currentOutputTranscription := [], currentInputTranscription := [],
        scheduledSources := [], nextStartTime := 0\<rparr>,
      map SourceStop (scheduledSources c))"

text \<open>2. Handle Text Transcriptions: the user's, then the model's.\<close>

definition handleInputTranscription ::
  "ServerContent \<Rightarrow> GeminiLiveClient \<Rightarrow> GeminiLiveClient \<times> effect list" where
  "handleInputTranscription content c =
     (case inputTranscription content of
        None \<Rightarrow> (c, [])
      | Some t \<Rightarrow>
          let s = appendText (currentInputTranscription c) t
          in (c\<lparr>currentInputTranscription := s\<rparr>, [TranscriptUpdate s True False]))"

definition handleOutputTranscription ::
  "ServerContent \<Rightarrow> GeminiLiveClient \<Rightarrow> GeminiLiveClient \<times> effect list" where
  "handleOutputTranscription content c =
     (case outputTranscription content of
        None \<Rightarrow> (c, [])
      | Some t \<Rightarrow>
          let s = appendText (currentOutputTranscription c) t
          in (c\<lparr>currentOutputTranscription := s\<rparr>, [TranscriptUpdate s False False]))"

text \<open>3. Handle Turn Completion.\<close>

definition handleTurnComplete ::
  "ServerContent \<Rightarrow> GeminiLiveClient \<Rightarrow> GeminiLiveClient \<times> effect list" where
  "handleTurnComplete content c =
     (if turnComplete content
      then let e1 = (if trim (currentInputTranscription c) \<noteq> []
                     then [TranscriptUpdate (currentInputTranscription c) True True] else []);
               c1 = (if trim (currentInputTranscription c) \<noteq> []
                     then c\<lparr>currentInputTranscription := []\<rparr> else c);
               e2 = (if trim (currentOutputTranscription c1) \<noteq> []
                     then [TranscriptUpdate (currentOutputTranscription c1) False True] else []);
               c2 = (if trim (currentOutputTranscription c1) \<noteq> []
                     then c1\<lparr>currentOutputTranscription := []\<rparr> else c1)
           in (c2, e1 @ e2)
      else (c, []))"

text \<open>
  4. Handle Audio Output. The volume samples every hundredth value of the channel.
  \<open>now\<close> is \<open>audioContext.currentTime\<close> when the chunk is scheduled. Everything thrown
  inside the \<open>try\<close> block (by \<open>atob\<close>, the Int16Array constructor, \<open>createBuffer\<close>, or
  \<open>start\<close> on a negative time) ends in \<open>console.error\<close>.
\<close>

fun sampledSquares :: "real list \<Rightarrow> real" where
  "sampledSquares [] = 0"
| "sampledSquares (x # xs) = x * x + sampledSquares (drop 99 xs)"

definition handleAudioOutput ::
  "real \<Rightarrow> ServerContent \<Rightarrow> GeminiLiveClient \<Rightarrow> GeminiLiveClient \<times> effect list" where
  "handleAudioOutput now content c =
     (case audioData content of
        None \<Rightarrow> (c, [])
      | Some audio \<Rightarrow>
          if audio = [] \<or> \<not> hasAudioContext c then (c, [])
          else case decodeBase64 audio of
                 Inl e \<Rightarrow> (c, [ConsoleError e])
               | Inr bytes \<Rightarrow>
                   (case decodeAudioData bytes 24000 1 of
                      Inl e \<Rightarrow> (c, [ConsoleError e])
                    | Inr buf \<Rightarrow>
                        let channelData = channels buf ! 0;
                            rms = sqrt (sampledSquares channelData
                                        / (real (length channelData) / 100));
                            start = max now (nextStartTime c);
                            src = \<lparr>buffer = buf, startTime = start\<rparr>
                        in if start < 0
                           then (c, [AudioVisualizer (rms * 5), ConsoleError RangeError])
                           else (c\<lparr>nextStartTime := start + duration buf,
                                   scheduledSources := scheduledSources c @ [src]\<rparr>,
                                 [AudioVisualizer (rms * 5), SourceStart src])))"

text \<open>
  One inbound message. The handler is asynchronous (it awaits \<open>decodeAudioData\<close>, which
  completes without waiting for anything); it is modelled as running to its end before
  the next message is taken.
\<close>

definition handleOnMessage ::
  "real \<Rightarrow> LiveServerMessage \<Rightarrow> GeminiLiveClient \<Rightarrow> GeminiLiveClient \<times> effect list" where
  "handleOnMessage now message c =
     (case message of
        None \<Rightarrow> (c, [])
      | Some content \<Rightarrow>
          if interrupted content then handleInterruption c
          else let (c1, e1) = handleInputTranscription content c;
                   (c2, e2) = handleOutputTranscription content c1;
                   (c3, e3) = handleTurnComplete content c2;
                   (c4, e4) = handleAudioOutput now content c3
               in (c4, e1 @ e2 @ e3 @ e4))"

subsection \<open>Series of messages\<close>



text \<open>The start time and the duration of every source started, in order.\<close>

fun starts :: "effect list \<Rightarrow> (real \<times> real) list" where
  "starts [] = []"
| "starts (SourceStart src # es) = (startTime src, duration (buffer src)) # starts es"
| "starts (e # es) = starts es"



definition silence :: AudioBuffer where
  "silence = \<lparr>sampleRate = 24000, frameLength = 1, channels = [[0]]\<rparr>"

definition interruptedContent :: ServerContent where
  "interruptedContent =
     \<lparr>interrupted = True, inputTranscription = Some (Some (utf16 ''hi'')),
      outputTranscription = Some (Some (utf16 ''salut'')), turnComplete = True,
      audioData = Some (utf16 ''AAA='')\<rparr>"

definition busyClient :: GeminiLiveClient where
  "busyClient =
     \<lparr>hasAudioContext = True, currentInputTranscription = utf16 ''hello'',
      currentOutputTranscription = utf16 ''bonjour'', nextStartTime = 7,
      scheduledSources = [\<lparr>buffer = silence, startTime = 6\<rparr>]\<rparr>"

section \<open>Properties of the reconciler\<close>

lemma trim_empty_iff: "trim s = [] \<longleftrightarrow> list_all isWhiteSpace s"
proof
  assume "trim s = []"
  then have "dropWhile isWhiteSpace (rev (dropWhile isWhiteSpace s)) = []"
    by (simp add: trim_def)
  then have all: "\<forall>c \<in> set (dropWhile isWhiteSpace s). isWhiteSpace c"
    by simp
  have "dropWhile isWhiteSpace s = []"
  proof (cases "dropWhile isWhiteSpace s")
    case Nil
    then show ?thesis .
  next
    case (Cons c cs)
    then have "\<not> isWhiteSpace c"
      using hd_dropWhile [of isWhiteSpace s] by simp
    with all Cons show ?thesis by simp
  qed
  then show "list_all isWhiteSpace s"
    by (simp add: list_all_iff)
next
  assume "list_all isWhiteSpace s"
  then have d: "dropWhile isWhiteSpace s = []"
    by (simp add: list_all_iff)
  show "trim s = []"
    unfolding trim_def d by simp
qed

lemma startsWith_prefix: "startsWith s t \<longleftrightarrow> prefix t s"
proof
  assume "startsWith s t"
  then have "s = t @ drop (length t) s"
    unfolding startsWith_def by (metis append_take_drop_id)
  then show "prefix t s"
    by (metis prefixI)
next
  assume "prefix t s"
  then show "startsWith s t"
    by (auto simp: startsWith_def prefix_def)
qed

lemma last_item_snoc:
  "items \<noteq> [] \<Longrightarrow> rev items = L # before \<Longrightarrow>
     items ! (length items - 1) = L \<and> items[length items - 1 := x] = rev before @ [x]"
proof -
  assume "items \<noteq> []" and r: "rev items = L # before"
  from r have "items = rev before @ [L]"
    by (metis rev.simps(2) rev_rev_ident)
  then show ?thesis
    by (simp add: nth_append list_update_append)
qed

text \<open>
  C1. For every transcript update (text \<open>T\<close>, speaker, completeness flag) and every
  current sequence, the reconciler returns exactly what the upsert rule prescribes:
  blank text changes nothing; an incomplete last item of the same speaker is replaced
  in place; a complete last item of the same speaker suppresses an equal text or a
  prefix of its text, is reopened by a text that strictly extends it, and otherwise a
  new item is appended; with no last item or another speaker a new item is appended.
\<close>

theorem handleTranscriptUpdate_upsert_rule:
  "handleTranscriptUpdate now1 now2 T isUser flag items =
     upsert_rule now1 now2 T (if isUser then User else Model) flag items"
proof (cases "rev items")
  case Nil
  then show ?thesis
    by (auto simp: handleTranscriptUpdate_def upsert_rule_def trim_empty_iff Let_def)
next
  case (Cons L before)
  then have ne: "items \<noteq> []" by auto
  have sp: "strict_prefix (text_item L) T \<longleftrightarrow> prefix (text_item L) T \<and> T \<noteq> text_item L"
    by (auto simp: strict_prefix_def)
  show ?thesis
    using last_item_snoc [OF ne Cons] ne Cons
    by (auto simp: handleTranscriptUpdate_def upsert_rule_def trim_empty_iff
        startsWith_prefix sp Let_def)
qed

theorem handleTranscriptUpdate_upsert_rule_witness:
  "handleTranscriptUpdate 1000 1000 (utf16 ''Hello World'') True True
     [\<lparr>id_item = utf16 ''7'', source = User, text_item = utf16 ''Hello'', timestamp = 7,
       isComplete = True\<rparr>]
   = [\<lparr>id_item = utf16 ''7'', source = User, text_item = utf16 ''Hello World'',
        timestamp = 1000, isComplete = True\<rparr>]"
  unfolding handleTranscriptUpdate_upsert_rule
  by (simp add: upsert_rule_def utf16_def isWhiteSpace_def strict_prefix_def)

lemma htu_Nil:
  "handleTranscriptUpdate now1 now2 T isUser flag [] =
     (if trim T = [] then []
      else [\<lparr>id_item = numberToString now1, source = (if isUser then User else Model),
              text_item = T, timestamp = now2, isComplete = flag\<rparr>])"
  by (simp add: handleTranscriptUpdate_def)

lemma htu_snoc:
  "handleTranscriptUpdate now1 now2 T isUser flag (xs @ [L]) =
     (let spk = (if isUser then User else Model);
          new = \<lparr>id_item = numberToString now1, source = spk, text_item = T,
                  timestamp = now2, isComplete = flag\<rparr>;
          L' = L\<lparr>text_item := T, isComplete := flag, timestamp := now1\<rparr>
      in if trim T = [] then xs @ [L]
         else if source L = spk \<and> \<not> isComplete L then xs @ [L']
         else if source L = spk \<and> isComplete L
         then (if text_item L = T \<or> startsWith (text_item L) T then xs @ [L]
               else if startsWith T (text_item L) then xs @ [L']
               else xs @ [L, new])
         else xs @ [L, new])"
  by (simp add: handleTranscriptUpdate_def Let_def nth_append list_update_append)

lemma ibos_snoc:
  "incomplete_before_other_speaker (xs @ [x]) \<longleftrightarrow>
     incomplete_before_other_speaker xs \<and>
     (xs = [] \<or> isComplete (last xs) \<or> source x \<noteq> source (last xs))"
  by (induction xs rule: incomplete_before_other_speaker.induct) auto

lemma ibos_snoc2:
  "incomplete_before_other_speaker (xs @ [a, b]) \<longleftrightarrow>
     incomplete_before_other_speaker (xs @ [a]) \<and> (isComplete a \<or> source b \<noteq> source a)"
  using ibos_snoc [of "xs @ [a]" b] by simp

lemma ibos_step:
  "incomplete_before_other_speaker items \<Longrightarrow>
   incomplete_before_other_speaker (handleTranscriptUpdate now1 now2 T isUser flag items)"
proof (cases items rule: rev_cases)
  case Nil
  then show ?thesis by (simp add: htu_Nil)
next
  case (snoc xs L)
  assume "incomplete_before_other_speaker items"
  with snoc show ?thesis
    by (auto simp: htu_snoc ibos_snoc ibos_snoc2 Let_def)
qed

lemma ibos_run:
  "incomplete_before_other_speaker items \<Longrightarrow> incomplete_before_other_speaker (applyUpdates items us)"
  by (induction us arbitrary: items) (auto simp: applyUpdate_def ibos_step split: prod.splits)

lemma htu_keeps_earlier:
  "Suc i < length items \<Longrightarrow>
     handleTranscriptUpdate now1 now2 T isUser flag items ! i = items ! i"
proof (cases items rule: rev_cases)
  case Nil
  assume "Suc i < length items"
  with Nil show ?thesis by simp
next
  case (snoc xs L)
  assume "Suc i < length items"
  with snoc have "i < length xs" by simp
  with snoc show ?thesis
    by (auto simp: htu_snoc Let_def nth_append)
qed

lemma htu_length: "length items \<le> length (handleTranscriptUpdate now1 now2 T isUser flag items)"
  by (cases items rule: rev_cases) (auto simp: htu_Nil htu_snoc Let_def)

lemma unat_digitChar: "d < 10 \<Longrightarrow> unat (digitChar d) = 48 + d"
  unfolding digitChar_def by (simp only: unat_of_nat) simp

lemma digit_inj: "a < 10 \<Longrightarrow> b < 10 \<Longrightarrow> digitChar a = digitChar b \<Longrightarrow> a = b"
proof -
  assume a: "a < 10" and b: "b < 10" and e: "digitChar a = digitChar b"
  have "unat (digitChar a) = unat (digitChar b)"
    by (simp only: e)
  then have "48 + a = 48 + b"
    by (simp only: unat_digitChar [OF a] unat_digitChar [OF b])
  then show "a = b" by arith
qed

lemma digit_not_minus: "d < 10 \<Longrightarrow> digitChar d \<noteq> 45"
proof
  assume d: "d < 10" and e: "digitChar d = 45"
  have "unat (digitChar d) = unat (45 :: 16 word)"
    by (simp only: e)
  then have "48 + d = 45"
    by (simp only: unat_digitChar [OF d]) simp
  then show False by arith
qed

lemma decimalDigits_ne: "decimalDigits n \<noteq> []"
  by (subst decimalDigits.simps) simp

lemma decimalDigits_no_minus: "45 \<notin> set (decimalDigits n)"
proof (induction n rule: decimalDigits.induct)
  case (1 n)
  show ?case
  proof (cases "n < 10")
    case True
    then show ?thesis using digit_not_minus [of n] by (subst decimalDigits.simps) auto
  next
    case False
    then show ?thesis using 1 digit_not_minus [of "n mod 10"]
      by (subst decimalDigits.simps) auto
  qed
qed

lemma decimalDigits_inj: "decimalDigits m = decimalDigits n \<Longrightarrow> m = n"
proof (induction m arbitrary: n rule: decimalDigits.induct)
  case (1 m)
  show ?case
  proof (cases "m < 10")
    case True
    then have m1: "decimalDigits m = [digitChar m]" by (subst decimalDigits.simps) simp
    show ?thesis
    proof (cases "n < 10")
      case True
      then have "decimalDigits n = [digitChar n]" by (subst decimalDigits.simps) simp
      with m1 "1.prems" have "digitChar m = digitChar n" by simp
      with \<open>m < 10\<close> True show ?thesis by (rule digit_inj)
    next
      case False
      then have "decimalDigits n = decimalDigits (n div 10) @ [digitChar (n mod 10)]"
        by (subst decimalDigits.simps) simp
      with m1 "1.prems" have "decimalDigits (n div 10) = []" by simp
      then show ?thesis using decimalDigits_ne by blast
    qed
  next
    case False
    then have m2: "decimalDigits m = decimalDigits (m div 10) @ [digitChar (m mod 10)]"
      by (subst decimalDigits.simps) simp
    show ?thesis
    proof (cases "n < 10")
      case True
      then have "decimalDigits n = [digitChar n]" by (subst decimalDigits.simps) simp
      with m2 "1.prems" have "decimalDigits (m div 10) = []" by simp
      then show ?thesis using decimalDigits_ne by blast
    next
      case nf: False
      then have "decimalDigits n = decimalDigits (n div 10) @ [digitChar (n mod 10)]"
        by (subst decimalDigits.simps) simp
      with m2 "1.prems" have q: "decimalDigits (m div 10) = decimalDigits (n div 10)"
        and r: "digitChar (m mod 10) = digitChar (n mod 10)" by simp_all
      from "1.IH" [OF False q] have "m div 10 = n div 10" .
      moreover have "m mod 10 = n mod 10" by (rule digit_inj [OF _ _ r]) simp_all
      ultimately show ?thesis by (metis div_mult_mod_eq)
    qed
  qed
qed

lemma numberToString_inj: "numberToString a = numberToString b \<Longrightarrow> a = b"
proof -
  assume e: "numberToString a = numberToString b"
  have hd_neg: "hd (decimalDigits k) \<noteq> 45" for k
    using decimalDigits_no_minus [of k] decimalDigits_ne [of k] by (cases "decimalDigits k") auto
  show ?thesis
  proof (cases "a < 0")
    case True
    show ?thesis
    proof (cases "b < 0")
      case bt: True
      with True e have "decimalDigits (nat (- a)) = decimalDigits (nat (- b))"
        by (simp add: numberToString_def)
      then have "nat (- a) = nat (- b)" by (rule decimalDigits_inj)
      with True bt show ?thesis by simp
    next
      case False
      with True e have "45 # decimalDigits (nat (- a)) = decimalDigits (nat b)"
        by (simp add: numberToString_def)
      then show ?thesis using hd_neg [of "nat b"] by (metis list.sel(1))
    qed
  next
    case False
    show ?thesis
    proof (cases "b < 0")
      case True
      with False e have "decimalDigits (nat a) = 45 # decimalDigits (nat (- b))"
        by (simp add: numberToString_def)
      then show ?thesis using hd_neg [of "nat a"] by (metis list.sel(1))
    next
      case bf: False
      with False e have "decimalDigits (nat a) = decimalDigits (nat b)"
        by (simp add: numberToString_def)
      then have "nat a = nat b" by (rule decimalDigits_inj)
      with False bf show ?thesis by simp
    qed
  qed
qed

lemma ids_step:
  "id_item ` set (handleTranscriptUpdate now1 now2 T isUser flag items)
     \<subseteq> insert (numberToString now1) (id_item ` set items)"
  by (cases items rule: rev_cases) (auto simp: htu_Nil htu_snoc Let_def)

lemma ids_run:
  "id_item ` set (applyUpdates items us)
     \<subseteq> id_item ` set items \<union> numberToString ` clockRead1 ` set us"
proof (induction us arbitrary: items)
  case Nil
  then show ?case by simp
next
  case (Cons u us)
  obtain now1 now2 T isUser flag where u: "u = (now1, now2, T, isUser, flag)"
    by (cases u) auto
  have "id_item ` set (applyUpdates (applyUpdate u items) us)
          \<subseteq> id_item ` set (applyUpdate u items) \<union> numberToString ` clockRead1 ` set us"
    by (rule Cons.IH)
  moreover have "id_item ` set (applyUpdate u items)
          \<subseteq> insert (numberToString now1) (id_item ` set items)"
    unfolding u applyUpdate_def by (simp add: ids_step)
  ultimately show ?case
    unfolding u by auto
qed

lemma appended_item:
  "length (handleTranscriptUpdate now1 now2 T isUser flag items) = Suc (length items) \<Longrightarrow>
     handleTranscriptUpdate now1 now2 T isUser flag items =
       items @ [\<lparr>id_item = numberToString now1, source = (if isUser then User else Model),
                  text_item = T, timestamp = now2, isComplete = flag\<rparr>]"
  by (cases items rule: rev_cases) (auto simp: htu_Nil htu_snoc Let_def split: if_splits)

text \<open>
  C4, as stated, fails: after a user delta, a model delta and another user delta, the
  first user item is still incomplete although a later user item exists.
\<close>

theorem only_final_incomplete_counterexample:
  "\<not> only_final_incomplete (applyUpdates []
      [(1, 1, utf16 ''a'', True, False), (2, 2, utf16 ''b'', False, False),
       (3, 3, utf16 ''ac'', True, False)])"
  by (simp add: applyUpdate_def handleTranscriptUpdate_def utf16_def trim_def isWhiteSpace_def)

text \<open>
  C4, amended. In every sequence reached from the empty one by transcript updates, an
  incomplete item is the last item or is directly followed by an item of the other
  speaker; and an update never removes an item and never changes an item that is
  followed by a later item.
\<close>

theorem transcript_invariant:
  "incomplete_before_other_speaker (applyUpdates [] us) \<and>
   length items \<le> length (handleTranscriptUpdate now1 now2 T isUser flag items) \<and>
   (Suc i < length items \<longrightarrow>
      handleTranscriptUpdate now1 now2 T isUser flag items ! i = items ! i)"
  using ibos_run [of "[]" us] htu_keeps_earlier [of i items now1 now2 T isUser flag]
    htu_length [of items now1 now2 T isUser flag]
  by simp

theorem transcript_invariant_witness:
  "incomplete_before_other_speaker (applyUpdates []
      [(1, 1, utf16 ''a'', True, False), (2, 2, utf16 ''b'', False, False),
       (3, 3, utf16 ''ac'', True, False)]) \<and>
   Suc 0 < length [\<lparr>id_item = utf16 ''1'', source = User, text_item = utf16 ''a'',
                     timestamp = 1, isComplete = True\<rparr>,
                   \<lparr>id_item = utf16 ''2'', source = Model, text_item = utf16 ''b'',
                     timestamp = 2, isComplete = False\<rparr>] \<and>
   handleTranscriptUpdate 3 3 (utf16 ''bc'') False True
     [\<lparr>id_item = utf16 ''1'', source = User, text_item = utf16 ''a'',
        timestamp = 1, isComplete = True\<rparr>,
      \<lparr>id_item = utf16 ''2'', source = Model, text_item = utf16 ''b'',
        timestamp = 2, isComplete = False\<rparr>] ! 0
   = \<lparr>id_item = utf16 ''1'', source = User, text_item = utf16 ''a'',
        timestamp = 1, isComplete = True\<rparr>"
  using transcript_invariant [of
      "[(1, 1, utf16 ''a'', True, False), (2, 2, utf16 ''b'', False, False),
        (3, 3, utf16 ''ac'', True, False)]"
      "[\<lparr>id_item = utf16 ''1'', source = User, text_item = utf16 ''a'',
          timestamp = 1, isComplete = True\<rparr>,
        \<lparr>id_item = utf16 ''2'', source = Model, text_item = utf16 ''b'',
          timestamp = 2, isComplete = False\<rparr>]" 3 3 "utf16 ''bc''" False True 0]
  by simp

text \<open>
  C9, as stated, fails: the id is the clock reading, so two items appended within the
  same millisecond (here the user's and the model's final text of one turn) share it.
\<close>

theorem appended_id_fresh_counterexample:
  "length (handleTranscriptUpdate 5 5 (utf16 ''b'') False True
             (applyUpdates [] [(5, 5, utf16 ''a'', True, True)]))
     = Suc (length (applyUpdates [] [(5, 5, utf16 ''a'', True, True)])) \<and>
   id_item (last (handleTranscriptUpdate 5 5 (utf16 ''b'') False True
                    (applyUpdates [] [(5, 5, utf16 ''a'', True, True)])))
     \<in> id_item ` set (applyUpdates [] [(5, 5, utf16 ''a'', True, True)])"
  by (simp add: applyUpdate_def handleTranscriptUpdate_def utf16_def trim_def isWhiteSpace_def)

text \<open>
  C9, amended. When an update appends an item to a sequence reached from the empty one,
  the new id is the decimal rendering of the update's first clock reading, and it
  differs from every id already in the sequence provided that reading differs from the
  first clock reading of every earlier update.
\<close>

theorem appended_id_fresh_if_clock_fresh:
  assumes "now1 \<notin> clockRead1 ` set us"
    and "length (handleTranscriptUpdate now1 now2 T isUser flag (applyUpdates [] us))
           = Suc (length (applyUpdates [] us))"
  shows "id_item (last (handleTranscriptUpdate now1 now2 T isUser flag (applyUpdates [] us)))
           = numberToString now1 \<and>
         numberToString now1 \<notin> id_item ` set (applyUpdates [] us)"
proof
  show "id_item (last (handleTranscriptUpdate now1 now2 T isUser flag (applyUpdates [] us)))
          = numberToString now1"
    by (simp add: appended_item [OF assms(2)])
  show "numberToString now1 \<notin> id_item ` set (applyUpdates [] us)"
  proof
    assume "numberToString now1 \<in> id_item ` set (applyUpdates [] us)"
    with ids_run [of "[]" us] have "numberToString now1 \<in> numberToString ` clockRead1 ` set us"
      by auto
    then obtain u where "u \<in> set us" and "numberToString now1 = numberToString (clockRead1 u)"
      by auto
    then have "now1 \<in> clockRead1 ` set us"
      using numberToString_inj by blast
    with assms(1) show False by simp
  qed
qed

theorem appended_id_fresh_if_clock_fresh_witness:
  "id_item (last (handleTranscriptUpdate 6 6 (utf16 ''b'') False True
                    (applyUpdates [] [(5, 5, utf16 ''a'', True, True)])))
     = numberToString 6 \<and>
   numberToString 6 \<notin> id_item ` set (applyUpdates [] [(5, 5, utf16 ''a'', True, True)])"
proof (rule appended_id_fresh_if_clock_fresh)
  show "6 \<notin> clockRead1 ` set [(5, 5, utf16 ''a'', True, True)]"
    by simp
  show "length (handleTranscriptUpdate 6 6 (utf16 ''b'') False True
                 (applyUpdates [] [(5, 5, utf16 ''a'', True, True)]))
          = Suc (length (applyUpdates [] [(5, 5, utf16 ''a'', True, True)]))"
    by (simp add: applyUpdate_def handleTranscriptUpdate_def utf16_def trim_def isWhiteSpace_def)
qed

section \<open>Properties of the base64 codec\<close>

lemma unat16: "m < 65536 \<Longrightarrow> unat (of_nat m :: 16 word) = m"
  by (simp only: unat_of_nat) simp

lemma unat_b64char:
  "n < 64 \<Longrightarrow> unat (b64char n) =
     (if n < 26 then 65 + n else if n < 52 then 71 + n else if n < 62 then n - 4
      else if n = 62 then 43 else 47)"
  unfolding b64char_def
  by (auto simp only: unat16 split: if_splits) simp_all

lemma b64index_b64char: "n < 64 \<Longrightarrow> b64index (b64char n) = Some n"
  unfolding b64index_def Let_def
  by (simp only: unat_b64char) auto

lemma sextets_lt: "\<forall>x \<in> set bs. x < 256 \<Longrightarrow> \<forall>y \<in> set (sextets bs). y < 64"
  by (induction bs rule: sextets.induct) auto

lemma octets_sextets: "\<forall>x \<in> set bs. x < 256 \<Longrightarrow> octets (sextets bs) = bs"
  by (induction bs rule: sextets.induct) auto


lemma b64char_range: "n < 64 \<Longrightarrow> 43 \<le> unat (b64char n) \<and> unat (b64char n) \<noteq> 61"
  by (simp only: unat_b64char) auto

lemma b64char_not_pad: "n < 64 \<Longrightarrow> b64char n \<noteq> 61"
  using b64char_range [of n] by auto

lemma b64char_not_ws: "n < 64 \<Longrightarrow> \<not> isAsciiWhitespace (b64char n)"
  using b64char_range [of n] by (auto simp: isAsciiWhitespace_def)

lemma fromCharCodes_map: "fromCharCodes bs binary = binary @ map ucast bs"
  by (induction bs arbitrary: binary) auto

lemma charCodes_map: "charCodes cs = map ucast cs"
  by (induction cs) auto

lemma u8_lt: "unat (b :: u8) < 256"
  using unsigned_less [of b, where 'a=nat] by simp

lemma unat_ucast_u8: "unat (ucast (b :: u8) :: 16 word) = unat b"
proof -
  have "unat b < 2 ^ 16" using u8_lt [of b] by simp
  then show ?thesis by (simp add: unsigned_ucast_eq take_bit_nat_eq_self)
qed

lemma ucast_ucast_u8: "(ucast (ucast (b :: u8) :: 16 word) :: u8) = b"
  by (rule ucast_up_ucast_id) (simp add: is_up)

lemma pad_step:
  "(x + (3 - n mod 3) mod 3) mod 4 = (0::nat) \<Longrightarrow> (x + 4 + (3 - n mod 3) mod 3) mod 4 = 0"
  by (metis add.assoc add.commute mod_add_self1)

lemma length_sextets_pad:
  "(length (sextets bs) + (3 - length bs mod 3) mod 3) mod 4 = 0"
proof (induction bs rule: sextets.induct)
  case (1 a b c rest)
  have "length (a # b # c # rest) = length rest + 3"
    by simp
  then have l: "length (a # b # c # rest) mod 3 = length rest mod 3"
    by (simp only: mod_add_self2)
  have s: "length (sextets (a # b # c # rest)) = length (sextets rest) + 4"
    by simp
  from 1 show ?case
    unfolding l s by (rule pad_step)
next
  case (2 a b)
  show ?case by simp
next
  case (3 a)
  show ?case by simp
next
  case 4
  show ?case by simp
qed

lemma stripPadding_replicate:
  assumes "\<forall>c \<in> set xs. c \<noteq> 61" and "p \<le> 2" and "length (xs @ replicate p 61) mod 4 = 0"
  shows "stripPadding (xs @ replicate p 61) = xs"
proof -
  consider "p = 0" | "p = 1" | "p = 2" using assms(2) by linarith
  then show ?thesis
  proof cases
    case 1
    show ?thesis
    proof (cases "rev xs")
      case Nil
      then show ?thesis using 1 by (simp add: stripPadding_def)
    next
      case (Cons a r)
      then have "a \<in> set xs" by (metis list.set_intros(1) set_rev)
      with assms(1) have "a \<noteq> 61" by simp
      with Cons 1 show ?thesis by (simp add: stripPadding_def split: list.splits)
    qed
  next
    case 2
    with assms(3) have "xs \<noteq> []" by auto
    then obtain b r where r: "rev xs = b # r" by (cases "rev xs") auto
    then have "b \<in> set xs" by (metis list.set_intros(1) set_rev)
    with assms(1) have "b \<noteq> 61" by simp
    moreover from r have "xs = rev r @ [b]" by (metis rev.simps(2) rev_rev_ident)
    ultimately show ?thesis using 2 assms(3) r by (simp add: stripPadding_def)
  next
    case 3
    have "replicate 2 (61 :: 16 word) = [61, 61]" by (simp add: numeral_2_eq_2)
    with 3 assms(3) show ?thesis by (simp add: stripPadding_def split: list.splits)
  qed
qed

lemma binary_lt:
  assumes "\<forall>c \<in> set s. c \<le> (255 :: 16 word)"
  shows "\<forall>x \<in> set (map unat s). x < 256"
proof
  fix x assume "x \<in> set (map unat s)"
  then obtain c where c: "c \<in> set s" and x: "x = unat c" by auto
  from assms c have "c \<le> 255" by blast
  then show "x < 256" unfolding x by (simp add: word_le_nat_alt)
qed

lemma btoa_ok:
  assumes "\<forall>c \<in> set s. c \<le> 255"
  shows "btoa s = Inr (map b64char (sextets (map unat s)) @ replicate ((3 - length s mod 3) mod 3) 61)"
proof -
  have "\<not> list_ex (\<lambda>c. 255 < c) s"
  proof
    assume "list_ex (\<lambda>c. 255 < c) s"
    then obtain c where "c \<in> set s" and "255 < c" by (auto simp: list_ex_iff)
    with assms show False by (metis leD)
  qed
  then show ?thesis
    unfolding btoa_def by (simp only: if_False)
qed

lemma filter_encoded:
  assumes "\<forall>y \<in> set ss. y < 64"
  shows "filter (\<lambda>c. \<not> isAsciiWhitespace c) (map b64char ss @ replicate p 61)
           = map b64char ss @ replicate p 61"
proof -
  have "\<not> isAsciiWhitespace 61"
    by (simp add: isAsciiWhitespace_def)
  moreover have "\<forall>c \<in> set (map b64char ss). \<not> isAsciiWhitespace c"
    using assms b64char_not_ws by auto
  ultimately have "\<forall>c \<in> set (map b64char ss @ replicate p 61). \<not> isAsciiWhitespace c"
    by auto
  then show ?thesis
    by (simp only: filter_id_conv)
qed

lemma index_encoded:
  assumes "\<forall>y \<in> set ss. y < 64"
  shows "map (\<lambda>c. the (b64index c)) (map b64char ss) = ss"
    and "\<not> list_ex (\<lambda>c. b64index c = None) (map b64char ss)"
proof -
  show "map (\<lambda>c. the (b64index c)) (map b64char ss) = ss"
    using assms by (induction ss) (simp_all add: b64index_b64char)
  show "\<not> list_ex (\<lambda>c. b64index c = None) (map b64char ss)"
    using assms by (induction ss) (simp_all add: b64index_b64char)
qed

lemma not_one_mod_four:
  "(n + p) mod 4 = (0::nat) \<Longrightarrow> p \<le> 2 \<Longrightarrow> n mod 4 \<noteq> 1"
  by presburger

lemma atob_encoded:
  assumes "\<forall>c \<in> set s. c \<le> 255"
  shows "atob (map b64char (sextets (map unat s)) @ replicate ((3 - length s mod 3) mod 3) 61) = Inr s"
proof -
  define ss where "ss = sextets (map unat s)"
  define p where "p = (3 - length s mod 3) mod 3"
  have lt: "\<forall>x \<in> set (map unat s). x < 256"
    using assms by (rule binary_lt)
  have s64: "\<forall>y \<in> set ss. y < 64"
    unfolding ss_def using lt by (rule sextets_lt)
  have nopad: "\<forall>c \<in> set (map b64char ss). c \<noteq> 61"
    using s64 b64char_not_pad by auto
  have p2: "p \<le> 2"
    unfolding p_def by simp
  have len: "length (map b64char ss @ replicate p 61) mod 4 = 0"
    using length_sextets_pad [of "map unat s"] by (simp add: ss_def p_def)
  have strip: "stripPadding (map b64char ss @ replicate p 61) = map b64char ss"
    using nopad p2 len by (rule stripPadding_replicate)
  have l1: "length (map b64char ss) mod 4 \<noteq> 1"
    using len p2 by (intro not_one_mod_four [of _ p]) simp_all
  have oct: "map of_nat (octets ss) = s"
    unfolding ss_def octets_sextets [OF lt] by (induction s) simp_all
  have "atob (map b64char ss @ replicate p 61) = Inr s"
    unfolding atob_def filter_encoded [OF s64] strip Let_def
    using l1 by (simp only: index_encoded [OF s64] oct if_False)
  then show ?thesis
    by (simp only: ss_def p_def)
qed

lemma base64_roundtrip:
  "\<exists>s. encodeBase64 bytes = Inr s \<and> decodeBase64 s = Inr bytes"
proof -
  let ?s = "map ucast bytes :: jsstring"
  have "\<forall>c \<in> set ?s. c \<le> 255"
  proof
    fix c assume "c \<in> set ?s"
    then obtain b :: u8 where "c = ucast b" by auto
    then have "unat c < 256" using u8_lt [of b] by (simp only: unat_ucast_u8)
    then show "c \<le> 255" by (simp add: word_le_nat_alt)
  qed
  from btoa_ok [OF this] atob_encoded [OF this]
  obtain r where "btoa ?s = Inr r" and "atob r = Inr ?s"
    by blast
  moreover have "map ucast ?s = bytes"
    by (simp add: map_idI ucast_ucast_u8)
  ultimately show ?thesis
    by (auto simp: encodeBase64_def decodeBase64_def fromCharCodes_map charCodes_map)
qed

text \<open>
  C10. For every byte array, encoding it with \<open>encodeBase64\<close> succeeds and decoding the
  result with \<open>decodeBase64\<close> returns the same bytes.
\<close>

theorem decodeBase64_encodeBase64:
  "(case encodeBase64 bytes of Inl e \<Rightarrow> Inl e | Inr s \<Rightarrow> decodeBase64 s) = Inr bytes"
proof -
  obtain s where "encodeBase64 bytes = Inr s" and "decodeBase64 s = Inr bytes"
    using base64_roundtrip by blast
  then show ?thesis by simp
qed

theorem decodeBase64_encodeBase64_witness:
  "(case encodeBase64 [77, 97, 110, 33] of Inl e \<Rightarrow> Inl e | Inr s \<Rightarrow> decodeBase64 s)
     = Inr [77, 97, 110, 33]"
  by (rule decodeBase64_encodeBase64)

section \<open>Properties of the PCM encoding\<close>

lemma int16_bytes: "ucast (ucast w :: u8) OR push_bit 8 (ucast (ucast (drop_bit 8 w) :: u8)) = (w :: int16)"
  by (rule bit_word_eqI) (auto simp: bit_simps)

lemma int16OfBuffer_bufferOfInt16: "int16OfBuffer (bufferOfInt16 ws) = ws"
  by (induction ws) (simp_all add: int16_bytes)

lemma length_bufferOfInt16: "length (bufferOfInt16 ws) = 2 * length ws"
  by (induction ws) simp_all

lemma pcmLoop_map: "pcmLoop xs = map pcmSample xs"
  by (induction xs) simp_all

lemma scaled_range:
  "- 32768 \<le> truncate_toward_zero (if max (- 1) (min 1 x) < 0 then max (- 1) (min 1 x) * 32768 else max (- 1) (min 1 x) * 32767)
   \<and> truncate_toward_zero (if max (- 1) (min 1 x) < 0 then max (- 1) (min 1 x) * 32768 else max (- 1) (min 1 x) * 32767) \<le> 32767"
proof -
  define s where "s = max (- 1) (min 1 x)"
  have b: "- 1 \<le> s" "s \<le> 1" by (simp_all add: s_def)
  show ?thesis
    unfolding s_def [symmetric] truncate_toward_zero_def
    using b by (auto simp: le_floor_iff floor_le_iff ceiling_le_iff le_ceiling_iff)
qed

lemma sint_int16: "- 32768 \<le> k \<Longrightarrow> k \<le> 32767 \<Longrightarrow> sint (word_of_int k :: int16) = k"
  by (simp add: sint_sbintrunc' signed_take_bit_int_eq_self)

lemma sint_pcmSample:
  "sint (pcmSample x) =
     truncate_toward_zero (if max (- 1) (min 1 x) < 0 then max (- 1) (min 1 x) * 32768 else max (- 1) (min 1 x) * 32767)"
  using scaled_range [of x]
  unfolding pcmSample_def toInt16_def Let_def truncate_toward_zero_def [symmetric]
  by (intro sint_int16) auto


lemma createPcmBlob_ok:
  "\<exists>s. createPcmBlob samples = Inr \<lparr>data = s, mimeType = utf16 ''audio/pcm;rate=16000''\<rparr>
       \<and> decodeBase64 s = Inr (bufferOfInt16 (map pcmSample samples))"
proof -
  obtain s where "encodeBase64 (bufferOfInt16 (pcmLoop samples)) = Inr s"
    and "decodeBase64 s = Inr (bufferOfInt16 (pcmLoop samples))"
    using base64_roundtrip by blast
  then show ?thesis
    by (simp add: createPcmBlob_def pcmLoop_map)
qed

lemma decodeAudioData_mono:
  assumes "ws \<noteq> []" and "8000 \<le> rate" and "rate \<le> 96000"
  shows "decodeAudioData (bufferOfInt16 ws) rate 1 =
           Inr \<lparr>sampleRate = rate, frameLength = length ws,
                 channels = [map (\<lambda>w. real_of_int (sint w) / 32768) ws]\<rparr>"
proof -
  have a: "newInt16Array (bufferOfInt16 ws) = Inr ws"
    by (simp add: newInt16Array_def length_bufferOfInt16 int16OfBuffer_bufferOfInt16)
  have b: "createBuffer 1 (length ws) rate =
             Inr \<lparr>sampleRate = rate, frameLength = length ws,
                   channels = replicate 1 (replicate (length ws) 0)\<rparr>"
    using assms by (cases ws) (simp_all add: createBuffer_def)
  have c: "fillChannel ws 1 (length ws) 0 = map (\<lambda>w. real_of_int (sint w) / 32768) ws"
    unfolding fillChannel_def by (rule nth_equalityI) simp_all
  show ?thesis
    by (simp add: decodeAudioData_def a Let_def b [unfolded One_nat_def] c [unfolded One_nat_def])
qed

lemma encodeThenDecode_eq:
  assumes "samples \<noteq> []" and "8000 \<le> rate" and "rate \<le> 96000"
  shows "encodeThenDecode samples rate =
           Inr (map (\<lambda>x. real_of_int (sint (pcmSample x)) / 32768) samples)"
proof -
  obtain s where s: "createPcmBlob samples = Inr \<lparr>data = s, mimeType = utf16 ''audio/pcm;rate=16000''\<rparr>"
    and d: "decodeBase64 s = Inr (bufferOfInt16 (map pcmSample samples))"
    using createPcmBlob_ok by blast
  have "map pcmSample samples \<noteq> []"
    using assms(1) by simp
  from decodeAudioData_mono [OF this assms(2,3)] show ?thesis
    by (simp add: encodeThenDecode_def s d comp_def)
qed

lemma pcm_error:
  assumes "- 1 \<le> x" and "x \<le> 1"
  shows "\<bar>real_of_int (sint (pcmSample x)) / 32768 - x\<bar> < 1 / 16384"
proof -
  have m: "max (- 1) (min 1 x) = x"
    using assms by simp
  show ?thesis
  proof (cases "x < 0")
    case True
    then have t: "sint (pcmSample x) = \<lceil>x * 32768\<rceil>"
      unfolding sint_pcmSample m by (simp add: truncate_toward_zero_def mult_less_0_iff)
    define c where "c = real_of_int \<lceil>x * 32768\<rceil>"
    have "x * 32768 \<le> c" "c < x * 32768 + 1"
      unfolding c_def by linarith+
    then have "\<bar>c / 32768 - x\<bar> < 1 / 16384"
      by linarith
    then show ?thesis unfolding t c_def .
  next
    case False
    then have t: "sint (pcmSample x) = \<lfloor>x * 32767\<rfloor>"
      unfolding sint_pcmSample m by (simp add: truncate_toward_zero_def mult_less_0_iff)
    define c where "c = real_of_int \<lfloor>x * 32767\<rfloor>"
    have "c \<le> x * 32767" "x * 32767 - 1 < c"
      unfolding c_def by linarith+
    with False assms have "\<bar>c / 32768 - x\<bar> < 1 / 16384"
      by linarith
    then show ?thesis unfolding t c_def .
  qed
qed

lemma bufferOfInt16_nth:
  "i < length ws \<Longrightarrow>
     bufferOfInt16 ws ! (2 * i) = ucast (ws ! i) \<and>
     bufferOfInt16 ws ! (2 * i + 1) = ucast (drop_bit 8 (ws ! i))"
proof (induction ws arbitrary: i)
  case Nil
  then show ?case by simp
next
  case (Cons w ws)
  show ?case
  proof (cases i)
    case 0
    then show ?thesis by simp
  next
    case (Suc j)
    with Cons.prems have "j < length ws" by simp
    from Cons.IH [OF this] show ?thesis
      unfolding Suc by simp
  qed
qed

text \<open>
  C7, as stated, fails: the sample 0.25 scales to 8191.75, which the code stores as
  8191, not as the rounded 8192.
\<close>

theorem createPcmBlob_round_counterexample:
  "pcmLoop [1 / 4] = [8191] \<and> pcm16_spec (1 / 4) = 8192"
  by (simp add: pcmSample_def toInt16_def pcm16_spec_def round_def)

text \<open>
  C7, amended. \<open>createPcmBlob\<close> always returns a chunk; its payload decodes to two
  bytes per sample; sample \<open>i\<close> is clamped to [-1, 1], scaled by 32768 when negative
  and by 32767 otherwise, and truncated towards zero to an int16 (no wrap-around
  occurs); byte \<open>2i\<close> is the low and byte \<open>2i+1\<close> the high byte of that int16.
\<close>

theorem createPcmBlob_truncates:
  "(\<exists>s. createPcmBlob samples = Inr \<lparr>data = s, mimeType = utf16 ''audio/pcm;rate=16000''\<rparr> \<and>
        decodeBase64 s = Inr (bufferOfInt16 (pcmLoop samples))) \<and>
   (\<forall>i < length samples.
      sint (pcmLoop samples ! i) =
        truncate_toward_zero
          (if max (- 1) (min 1 (samples ! i)) < 0
           then max (- 1) (min 1 (samples ! i)) * 32768
           else max (- 1) (min 1 (samples ! i)) * 32767) \<and>
      bufferOfInt16 (pcmLoop samples) ! (2 * i) = ucast (pcmLoop samples ! i) \<and>
      bufferOfInt16 (pcmLoop samples) ! (2 * i + 1) = ucast (drop_bit 8 (pcmLoop samples ! i)))"
proof
  show "\<exists>s. createPcmBlob samples = Inr \<lparr>data = s, mimeType = utf16 ''audio/pcm;rate=16000''\<rparr> \<and>
        decodeBase64 s = Inr (bufferOfInt16 (pcmLoop samples))"
    using createPcmBlob_ok [of samples] by (simp add: pcmLoop_map)
  show "\<forall>i < length samples.
      sint (pcmLoop samples ! i) =
        truncate_toward_zero
          (if max (- 1) (min 1 (samples ! i)) < 0
           then max (- 1) (min 1 (samples ! i)) * 32768
           else max (- 1) (min 1 (samples ! i)) * 32767) \<and>
      bufferOfInt16 (pcmLoop samples) ! (2 * i) = ucast (pcmLoop samples ! i) \<and>
      bufferOfInt16 (pcmLoop samples) ! (2 * i + 1) = ucast (drop_bit 8 (pcmLoop samples ! i))"
  proof (intro allI impI)
    fix i assume i: "i < length samples"
    then have "i < length (pcmLoop samples)" by (simp add: pcmLoop_map)
    from bufferOfInt16_nth [OF this] i
    show "sint (pcmLoop samples ! i) =
        truncate_toward_zero
          (if max (- 1) (min 1 (samples ! i)) < 0
           then max (- 1) (min 1 (samples ! i)) * 32768
           else max (- 1) (min 1 (samples ! i)) * 32767) \<and>
      bufferOfInt16 (pcmLoop samples) ! (2 * i) = ucast (pcmLoop samples ! i) \<and>
      bufferOfInt16 (pcmLoop samples) ! (2 * i + 1) = ucast (drop_bit 8 (pcmLoop samples ! i))"
      by (simp add: pcmLoop_map sint_pcmSample)
  qed
qed

theorem createPcmBlob_truncates_witness:
  "1 < length [1 / 4, - 1 / 2 :: real] \<and>
   sint (pcmLoop [1 / 4, - 1 / 2] ! 1) = - 16384 \<and>
   bufferOfInt16 (pcmLoop [1 / 4, - 1 / 2]) ! (2 * 1) = 0 \<and>
   bufferOfInt16 (pcmLoop [1 / 4, - 1 / 2]) ! (2 * 1 + 1) = 192"
proof -
  have l: "1 < length [1 / 4, - 1 / 2 :: real]"
    by simp
  from createPcmBlob_truncates [of "[1 / 4, - 1 / 2]", THEN conjunct2, rule_format, OF l] l
  show ?thesis
    by (simp add: truncate_toward_zero_def pcmSample_def toInt16_def)
qed

text \<open>
  C8, as stated, fails: the sample 49153/65536 (about 0.75) is encoded as 24575 and
  decoded as 24575/32768, which is 1.5/32768 away from it.
\<close>

theorem encodeThenDecode_error_counterexample:
  "encodeThenDecode [49153 / 65536] 24000 = Inr [24575 / 32768] \<and>
   \<not> \<bar>(24575 / 32768 :: real) - 49153 / 65536\<bar> \<le> 1 / 32768"
  by (simp add: encodeThenDecode_eq pcmSample_def toInt16_def)

text \<open>
  C8, amended. For a non-empty array of samples and a supported sample rate, encoding
  and then decoding returns as many samples, and every sample in [-1, 1] is reproduced
  with an error below 2/32768.
\<close>

theorem encodeThenDecode_error:
  assumes "samples \<noteq> []" and "8000 \<le> rate" and "rate \<le> 96000"
  shows "\<exists>out. encodeThenDecode samples rate = Inr out \<and> length out = length samples \<and>
           (\<forall>i < length samples. - 1 \<le> samples ! i \<and> samples ! i \<le> 1 \<longrightarrow>
              \<bar>out ! i - samples ! i\<bar> < 2 / 32768)"
proof -
  have "\<bar>real_of_int (sint (pcmSample x)) / 32768 - x\<bar> < 2 / 32768"
    if "- 1 \<le> x" and "x \<le> 1" for x
    using pcm_error [OF that] by simp
  then show ?thesis
    unfolding encodeThenDecode_eq [OF assms] by simp
qed

theorem encodeThenDecode_error_witness:
  "[49153 / 65536, - 1 / 3 :: real] \<noteq> [] \<and> (8000 :: real) \<le> 24000 \<and> (24000 :: real) \<le> 96000 \<and>
   (\<exists>out. encodeThenDecode [49153 / 65536, - 1 / 3] 24000 = Inr out \<and> length out = 2 \<and>
          \<bar>out ! 0 - 49153 / 65536\<bar> < 2 / 32768 \<and> \<bar>out ! 1 - (- 1 / 3)\<bar> < 2 / 32768)"
proof -
  have h: "[49153 / 65536, - 1 / 3 :: real] \<noteq> []" "(8000 :: real) \<le> 24000" "(24000 :: real) \<le> 96000"
    by simp_all
  from encodeThenDecode_error [OF h]
  obtain out where o: "encodeThenDecode [49153 / 65536, - 1 / 3] 24000 = Inr out"
    and l: "length out = length [49153 / 65536, - 1 / 3 :: real]"
    and e: "\<forall>i < length [49153 / 65536, - 1 / 3 :: real].
              - 1 \<le> [49153 / 65536, - 1 / 3 :: real] ! i \<and> [49153 / 65536, - 1 / 3 :: real] ! i \<le> 1 \<longrightarrow>
              \<bar>out ! i - [49153 / 65536, - 1 / 3] ! i\<bar> < 2 / 32768"
    by blast
  from e [rule_format, of 0] e [rule_format, of 1]
  have "\<bar>out ! 0 - 49153 / 65536\<bar> < 2 / 32768" and "\<bar>out ! 1 - (- 1 / 3)\<bar> < 2 / 32768"
    by simp_all
  with o l h show ?thesis
    by simp
qed

section \<open>Properties of the downsampler\<close>




text \<open>
  C6. The code departs from linear interpolation where the next source sample is
  exactly zero: \<open>input[intIdx + 1] || val1\<close> then takes \<open>val1\<close>. For the input
  [0.5, 0.5, 0] at 24000 Hz, output 1 sits at position 1.5 between 0.5 and 0, where
  interpolation gives 0.25, and the code returns 0.5.
\<close>

theorem downsampleTo16k_zero_sample:
  "downsampleTo16k [1 / 2, 1 / 2, 0] 24000 = Inr [1 / 2, 1 / 2] \<and>
   interpolate_spec [1 / 2, 1 / 2, 0] (24000 / 16000) 1 = 1 / 4"
  by (simp add: downsampleTo16k_def downsampleLoop.simps element_def orElse_def
      interpolate_spec_def Let_def numeral_2_eq_2)

section \<open>Properties of the live client\<close>











lemma starts_stops: "starts (map SourceStop xs) = []"
  by (induction xs) simp_all


text \<open>
  C2. A message whose content carries the interrupted flag empties both accumulators,
  stops every tracked source and empties the tracked set (and resets the playback
  clock); these stops are all its effects: no transcript callback, no decoding, no
  scheduling, whatever else the message carries.
\<close>

theorem interrupted_only_flushes:
  "interrupted content \<Longrightarrow> handleOnMessage now (Some content) c = (c', effects) \<Longrightarrow>
     currentInputTranscription c' = [] \<and> currentOutputTranscription c' = [] \<and>
     scheduledSources c' = [] \<and> nextStartTime c' = 0 \<and> hasAudioContext c' = hasAudioContext c \<and>
     effects = map SourceStop (scheduledSources c)"
  by (auto simp: handleOnMessage_def handleInterruption_def)

theorem interrupted_only_flushes_witness:
  "interrupted interruptedContent \<and>
   currentInputTranscription (fst (handleOnMessage 3 (Some interruptedContent) busyClient)) = [] \<and>
   currentOutputTranscription (fst (handleOnMessage 3 (Some interruptedContent) busyClient)) = [] \<and>
   scheduledSources (fst (handleOnMessage 3 (Some interruptedContent) busyClient)) = [] \<and>
   snd (handleOnMessage 3 (Some interruptedContent) busyClient)
     = [SourceStop \<lparr>buffer = silence, startTime = 6\<rparr>]"
proof -
  have i: "interrupted interruptedContent"
    by (simp add: interruptedContent_def)
  from interrupted_only_flushes [OF i, of 3 busyClient
      "fst (handleOnMessage 3 (Some interruptedContent) busyClient)"
      "snd (handleOnMessage 3 (Some interruptedContent) busyClient)"]
  show ?thesis
    using i by (simp add: busyClient_def)
qed






end
